theory Spec2Isabelle
  imports Main "HOL-Library.Sublist"
begin

section \<open>The module loader of \<^verbatim>\<open>host/lib/load_modules.cpp\<close>\<close>

text \<open>
  The loader reads the variable \<^verbatim>\<open>UHD_MODULE_PATH\<close>, splits it at the path separator,
  completes every entry, walks every directory recursively and hands every other
  existing path to the dynamic loader of the platform.

  Everything the code asks of the operating system is a field of the record
  \<open>world\<close>: the environment block, the answers of Boost.Filesystem and the answers of
  the dynamic loader. The answers are functions of the path alone: the world does not
  change while one scan runs. The source calls the overloads of Boost.Filesystem that
  throw, so every one of these calls answers with a value or with an exception.

  What the loader does to the outside is a trace of events, threaded through every
  function as explicit state: each query of the filesystem, each call of
  \<^verbatim>\<open>load_module\<close> and each line written to \<^verbatim>\<open>std::cerr\<close>.

  An exception is a value: a call returns \<open>Inl\<close> of the exception it throws, and
  every caller either handles it or hands it on. The recursion of
  \<^verbatim>\<open>load_path\<close> has no bound in the source, so the model takes the number of stack
  frames it may use as an argument and answers \<open>None\<close> when they do not suffice.
\<close>

subsection \<open>The world and the trace\<close>

type_synonym path = string

type_synonym handle = nat

text \<open>The three variants the preprocessor selects between.\<close>

datatype platform = HAVE_DLFCN_H | HAVE_WINDOWS_H | NO_LOADER

text \<open>
  The exceptions of the program, both of them a \<^verbatim>\<open>std::exception\<close>: the one
  \<^verbatim>\<open>load_module\<close> throws, and the one Boost.Filesystem throws when the operating
  system refuses a query.
\<close>

datatype exn = runtime_error string | filesystem_error string

primrec what :: "exn \<Rightarrow> string" where
  "what (runtime_error msg) = msg"
| "what (filesystem_error msg) = msg"

text \<open>
  \<open>environ\<close> is the environment block in its order; \<open>complete_path\<close> is the
  completion of a path that is not empty against the current directory;
  \<open>directory_iterator\<close> is the sequence of the paths the iteration of a directory
  yields; \<open>dlopen\<close> and \<open>LoadLibrary\<close> answer \<open>None\<close> for the null pointer;
  \<open>loader_error_text\<close> is the text the loading facility would report for its last
  failure on that file (\<^verbatim>\<open>dlerror()\<close>, or the message of \<^verbatim>\<open>GetLastError()\<close>), when
  there is one.
\<close>

record world =
  environ :: "(string \<times> string) list"
  complete_path :: "path \<Rightarrow> exn + path"
  fs_exists :: "path \<Rightarrow> exn + bool"
  is_directory :: "path \<Rightarrow> exn + bool"
  directory_iterator :: "path \<Rightarrow> exn + path list"
  dlopen :: "string \<Rightarrow> handle option"
  LoadLibrary :: "string \<Rightarrow> handle option"
  loader_error_text :: "string \<Rightarrow> string option"

datatype event =
    Resolve string
  | Query_exists path
  | Query_is_directory path
  | Open_directory path
  | Load_attempt string
  | Cerr string

type_synonym outcome = "(exn + unit) \<times> event list"

definition file_string :: "path \<Rightarrow> string" where
  "file_string p = p"

text \<open>
  \<^verbatim>\<open>fs::system_complete\<close> returns an empty path as it is; every other path it
  completes as the platform does.
\<close>

definition system_complete :: "world \<Rightarrow> path \<Rightarrow> exn + path" where
  "system_complete w p = (if p = [] then Inr p else complete_path w p)"

subsection \<open>Module load function\<close>

fun env_path_sep :: "platform \<Rightarrow> string" where
  "env_path_sep HAVE_DLFCN_H = '':''"
| "env_path_sep HAVE_WINDOWS_H = '';''"
| "env_path_sep NO_LOADER = '':''"

fun load_module :: "platform \<Rightarrow> world \<Rightarrow> string \<Rightarrow> exn + unit" where
  "load_module HAVE_DLFCN_H w file_name =
     (if dlopen w file_name = None
      then Inl (runtime_error (''dlopen failed to load \"'' @ file_name @ ''\"''))
      else Inr ())"
| "load_module HAVE_WINDOWS_H w file_name =
     (if LoadLibrary w file_name = None
      then Inl (runtime_error (''LoadLibrary failed to load \"'' @ file_name @ ''\"''))
      else Inr ())"
| "load_module NO_LOADER w file_name =
     Inl (runtime_error (''Module loading not supported: Cannot load \"'' @ file_name @ ''\"''))"

subsection \<open>Load modules\<close>

text \<open>
  A loop over a sequence whose body may throw or may not return: the directory
  iteration of \<^verbatim>\<open>load_path\<close> and the \<^verbatim>\<open>BOOST_FOREACH\<close> of the static block. An
  exception of the body ends the loop and leaves it.
\<close>

fun for_each ::
  "('a \<Rightarrow> event list \<Rightarrow> outcome option) \<Rightarrow> 'a list \<Rightarrow> event list \<Rightarrow> outcome option" where
  "for_each body [] tr = Some (Inr (), tr)"
| "for_each body (x # xs) tr =
     (case body x tr of
        None \<Rightarrow> None
      | Some (Inl err, tr') \<Rightarrow> Some (Inl err, tr')
      | Some (Inr u, tr') \<Rightarrow> for_each body xs tr')"

text \<open>
  \<^verbatim>\<open>load_path\<close>; the argument \<open>frames\<close> is the number of stack frames left. The
  \<^verbatim>\<open>try\<close> block holds the call of \<^verbatim>\<open>load_module\<close> alone, and the handler takes every
  \<^verbatim>\<open>std::exception\<close>. The queries of the filesystem stand outside it: what they throw
  leaves \<^verbatim>\<open>load_path\<close>.
\<close>

primrec load_path :: "platform \<Rightarrow> world \<Rightarrow> nat \<Rightarrow> path \<Rightarrow> event list \<Rightarrow> outcome option" where
  "load_path plat w 0 path tr = None"
| "load_path plat w (Suc frames) path tr =
     (case fs_exists w path of
        Inl err \<Rightarrow> Some (Inl err, tr @ [Query_exists path])
      | Inr found \<Rightarrow>
          if \<not> found then
            Some (Inr (), tr @ [Query_exists path,
              Cerr (''Module path \"'' @ file_string path @ ''\" not found.'')])
          else
            (case is_directory w path of
               Inl err \<Rightarrow> Some (Inl err, tr @ [Query_exists path, Query_is_directory path])
             | Inr dir \<Rightarrow>
                 if dir then
                   (case directory_iterator w path of
                      Inl err \<Rightarrow>
                        Some (Inl err, tr @ [Query_exists path, Query_is_directory path,
                          Open_directory path])
                    | Inr entries \<Rightarrow>
                        for_each (load_path plat w frames) entries
                          (tr @ [Query_exists path, Query_is_directory path,
                            Open_directory path]))
                 else
                   (case load_module plat w (file_string path) of
                      Inl err \<Rightarrow>
                        Some (Inr (), tr @ [Query_exists path, Query_is_directory path,
                          Load_attempt (file_string path), Cerr (''Error: '' @ what err)])
                    | Inr u \<Rightarrow>
                        Some (Inr (), tr @ [Query_exists path, Query_is_directory path,
                          Load_attempt (file_string path)]))))"

definition MODULE_PATH_KEY :: string where
  "MODULE_PATH_KEY = ''UHD_MODULE_PATH''"

definition name_mapper :: "string \<Rightarrow> string" where
  "name_mapper var_name = (if var_name = MODULE_PATH_KEY then var_name else '''')"

text \<open>
  \<^verbatim>\<open>po::parse_environment\<close> maps the name of every variable of the environment block
  and keeps the variables whose mapped name is not blank, as options of that name.
\<close>

definition parse_environment ::
  "(string \<Rightarrow> string) \<Rightarrow> (string \<times> string) list \<Rightarrow> (string \<times> string) list" where
  "parse_environment mapper vars =
     concat (map (\<lambda>(n, v). if mapper n = '''' then [] else [(mapper n, v)]) vars)"

text \<open>
  The value \<^verbatim>\<open>po::store\<close> and \<^verbatim>\<open>po::notify\<close> leave in \<^verbatim>\<open>env_module_path\<close>: the value
  of the option, or its \<^verbatim>\<open>default_value("")\<close>. The model reads the first entry of the
  name; a block with a second entry of that name, which \<^verbatim>\<open>po::store\<close> may refuse, is
  outside it.
\<close>

definition env_module_path :: "world \<Rightarrow> string" where
  "env_module_path w =
     (case map_of (parse_environment name_mapper (environ w)) MODULE_PATH_KEY of
        None \<Rightarrow> ''''
      | Some v \<Rightarrow> v)"

definition is_any_of :: "string \<Rightarrow> char \<Rightarrow> bool" where
  "is_any_of cs c = (c \<in> set cs)"

text \<open>
  \<^verbatim>\<open>boost::split\<close> as the source calls it, with adjacent separators not merged. The
  scan goes from left to right; \<open>tok\<close> is the token read so far, which ends at the next
  character of the predicate and at the end of the input.
\<close>

fun split_from :: "(char \<Rightarrow> bool) \<Rightarrow> string \<Rightarrow> string \<Rightarrow> string list" where
  "split_from Pred tok [] = [tok]"
| "split_from Pred tok (c # cs) =
     (if Pred c then tok # split_from Pred [] cs else split_from Pred (tok @ [c]) cs)"

definition split :: "(char \<Rightarrow> bool) \<Rightarrow> string \<Rightarrow> string list" where
  "split Pred input = split_from Pred [] input"

text \<open>
  The static block \<^verbatim>\<open>load_modules\<close>. Neither \<^verbatim>\<open>fs::system_complete\<close> nor
  \<^verbatim>\<open>load_path\<close> stands in a \<^verbatim>\<open>try\<close> block here.
\<close>

definition load_modules :: "platform \<Rightarrow> world \<Rightarrow> nat \<Rightarrow> event list \<Rightarrow> outcome option" where
  "load_modules plat w frames tr =
     (if env_module_path w = '''' then Some (Inr (), tr)
      else
        for_each
          (\<lambda>module_path tr'.
             case system_complete w module_path of
               Inl err \<Rightarrow> Some (Inl err, tr' @ [Resolve module_path])
             | Inr p \<Rightarrow> load_path plat w frames p (tr' @ [Resolve module_path]))
          (split (is_any_of (env_path_sep plat)) (env_module_path w)) tr)"

text \<open>The body of the loop of the static block, by name.\<close>

definition load_entry :: "platform \<Rightarrow> world \<Rightarrow> nat \<Rightarrow> string \<Rightarrow> event list \<Rightarrow> outcome option" where
  "load_entry plat w frames module_path tr =
     (case system_complete w module_path of
        Inl err \<Rightarrow> Some (Inl err, tr @ [Resolve module_path])
      | Inr p \<Rightarrow> load_path plat w frames p (tr @ [Resolve module_path]))"

subsection \<open>Finite filesystem trees\<close>

text \<open>
  A finite tree describes what the filesystem answers below a path: nothing, something
  that is no directory, or a directory with the trees of its entries in the order of
  the iteration. A filesystem with a cycle of directories has no such tree, and neither
  has one that refuses a query.
\<close>

datatype tree = Missing path | File path | Dir path "tree list"

primrec root :: "tree \<Rightarrow> path" where
  "root (Missing p) = p"
| "root (File p) = p"
| "root (Dir p ts) = p"

fun represents :: "world \<Rightarrow> tree \<Rightarrow> bool" where
  "represents w (Missing p) = (fs_exists w p = Inr False)"
| "represents w (File p) = (fs_exists w p = Inr True \<and> is_directory w p = Inr False)"
| "represents w (Dir p ts) =
     (fs_exists w p = Inr True \<and> is_directory w p = Inr True \<and>
      directory_iterator w p = Inr (map root ts) \<and> list_all (represents w) ts)"

text \<open>The number of nesting levels of a tree: one for its root, and those below it.\<close>

fun nesting_depth :: "tree \<Rightarrow> nat" where
  "nesting_depth (Missing p) = 1"
| "nesting_depth (File p) = 1"
| "nesting_depth (Dir p ts) = Suc (foldr max (map nesting_depth ts) 0)"

text \<open>The files of a tree, in the order of the walk.\<close>

fun files :: "tree \<Rightarrow> path list" where
  "files (Missing p) = []"
| "files (File p) = [p]"
| "files (Dir p ts) = concat (map files ts)"

text \<open>
  When the loader of the platform refuses a file, and the text of the exception
  \<^verbatim>\<open>load_module\<close> throws for it.
\<close>

fun load_fails :: "platform \<Rightarrow> world \<Rightarrow> string \<Rightarrow> bool" where
  "load_fails HAVE_DLFCN_H w f = (dlopen w f = None)"
| "load_fails HAVE_WINDOWS_H w f = (LoadLibrary w f = None)"
| "load_fails NO_LOADER w f = True"

fun failure_text :: "platform \<Rightarrow> string \<Rightarrow> string" where
  "failure_text HAVE_DLFCN_H f = ''dlopen failed to load \"'' @ f @ ''\"''"
| "failure_text HAVE_WINDOWS_H f = ''LoadLibrary failed to load \"'' @ f @ ''\"''"
| "failure_text NO_LOADER f = ''Module loading not supported: Cannot load \"'' @ f @ ''\"''"

text \<open>The events the walk of a tree is to leave in the trace.\<close>

fun walk_events :: "platform \<Rightarrow> world \<Rightarrow> tree \<Rightarrow> event list" where
  "walk_events plat w (Missing p) =
     [Query_exists p, Cerr (''Module path \"'' @ p @ ''\" not found.'')]"
| "walk_events plat w (File p) =
     [Query_exists p, Query_is_directory p, Load_attempt p] @
     (if load_fails plat w p then [Cerr (''Error: '' @ failure_text plat p)] else [])"
| "walk_events plat w (Dir p ts) =
     [Query_exists p, Query_is_directory p, Open_directory p] @
     concat (map (walk_events plat w) ts)"

subsection \<open>The whole scan\<close>

definition module_paths :: "platform \<Rightarrow> world \<Rightarrow> string list" where
  "module_paths plat w = split (is_any_of (env_path_sep plat)) (env_module_path w)"

text \<open>
  The trees \<open>ts\<close> describe the filesystem below the completed entries \<open>mps\<close>, one tree
  for each entry, in their order.
\<close>

definition covers :: "world \<Rightarrow> string list \<Rightarrow> tree list \<Rightarrow> bool" where
  "covers w mps ts =
     (map (system_complete w) mps = map (\<lambda>t. Inr (root t)) ts \<and>
      list_all (represents w) ts)"

definition scan_events :: "platform \<Rightarrow> world \<Rightarrow> string list \<Rightarrow> tree list \<Rightarrow> event list" where
  "scan_events plat w mps ts =
     concat (map (\<lambda>(mp, t). Resolve mp # walk_events plat w t) (zip mps ts))"

text \<open>Entries joined by the separator: the value of a path variable.\<close>

fun join :: "char \<Rightarrow> string list \<Rightarrow> string" where
  "join sep [] = []"
| "join sep [x] = x"
| "join sep (x # y # ys) = x @ sep # join sep (y # ys)"

text \<open>An outcome seen from an earlier trace.\<close>

definition extend :: "event list \<Rightarrow> outcome option \<Rightarrow> outcome option" where
  "extend tr out = map_option (\<lambda>(r, ev). (r, tr @ ev)) out"

text \<open>
  Two worlds with the same inputs of the scan: the environment block and the answers
  of the filesystem. The answers of the loader may differ.
\<close>

definition same_inputs :: "world \<Rightarrow> world \<Rightarrow> bool" where
  "same_inputs w w' =
     (environ w' = environ w \<and> complete_path w' = complete_path w \<and>
      fs_exists w' = fs_exists w \<and> is_directory w' = is_directory w \<and>
      directory_iterator w' = directory_iterator w)"

definition same_loader :: "world \<Rightarrow> world \<Rightarrow> bool" where
  "same_loader w w' = (dlopen w' = dlopen w \<and> LoadLibrary w' = LoadLibrary w)"

text \<open>
  Two scans, one after the other, on the same trace. The second scan meets the world
  \<open>w'\<close>: what the loader answers then depends on what the first scan left resident
  in the process.
\<close>

definition scan_twice ::
  "platform \<Rightarrow> world \<Rightarrow> world \<Rightarrow> nat \<Rightarrow> event list \<Rightarrow> outcome option" where
  "scan_twice plat w w' frames tr =
     (case load_modules plat w frames tr of
        None \<Rightarrow> None
      | Some (Inl err, tr') \<Rightarrow> Some (Inl err, tr')
      | Some (Inr u, tr') \<Rightarrow> load_modules plat w' frames tr')"

subsection \<open>Reading a trace\<close>

primrec attempt_of :: "event \<Rightarrow> string list" where
  "attempt_of (Resolve p) = []"
| "attempt_of (Query_exists p) = []"
| "attempt_of (Query_is_directory p) = []"
| "attempt_of (Open_directory p) = []"
| "attempt_of (Load_attempt f) = [f]"
| "attempt_of (Cerr l) = []"

primrec line_of :: "event \<Rightarrow> string list" where
  "line_of (Resolve p) = []"
| "line_of (Query_exists p) = []"
| "line_of (Query_is_directory p) = []"
| "line_of (Open_directory p) = []"
| "line_of (Load_attempt f) = []"
| "line_of (Cerr l) = [l]"

primrec resolve_of :: "event \<Rightarrow> string list" where
  "resolve_of (Resolve p) = [p]"
| "resolve_of (Query_exists p) = []"
| "resolve_of (Query_is_directory p) = []"
| "resolve_of (Open_directory p) = []"
| "resolve_of (Load_attempt f) = []"
| "resolve_of (Cerr l) = []"

text \<open>The files handed to \<^verbatim>\<open>load_module\<close>, in their order.\<close>

definition load_attempts :: "event list \<Rightarrow> string list" where
  "load_attempts ev = concat (map attempt_of ev)"

text \<open>The lines written to \<^verbatim>\<open>std::cerr\<close>, in their order.\<close>

definition diagnostics :: "event list \<Rightarrow> string list" where
  "diagnostics ev = concat (map line_of ev)"

text \<open>The raw entries completed at the top level, in their order.\<close>

definition resolved :: "event list \<Rightarrow> string list" where
  "resolved ev = concat (map resolve_of ev)"

text \<open>The lines of the handler of \<^verbatim>\<open>load_path\<close>.\<close>

definition load_errors :: "event list \<Rightarrow> string list" where
  "load_errors ev = filter (prefix ''Error: '') (diagnostics ev)"

text \<open>The lines of the handler apart, a trace is the walk: queries, attempts, "not found".\<close>

primrec is_load_error :: "event \<Rightarrow> bool" where
  "is_load_error (Resolve p) = False"
| "is_load_error (Query_exists p) = False"
| "is_load_error (Query_is_directory p) = False"
| "is_load_error (Open_directory p) = False"
| "is_load_error (Load_attempt f) = False"
| "is_load_error (Cerr l) = prefix ''Error: '' l"

definition walk_of :: "event list \<Rightarrow> event list" where
  "walk_of ev = filter (\<lambda>e. \<not> is_load_error e) ev"

text \<open>An outcome with the walk of its trace.\<close>

definition walk_outcome :: "outcome option \<Rightarrow> outcome option" where
  "walk_outcome out = map_option (\<lambda>(r, ev). (r, walk_of ev)) out"

subsection \<open>An example world\<close>

text \<open>
  A directory \<^verbatim>\<open>/m\<close> with the files \<^verbatim>\<open>a\<close> and \<^verbatim>\<open>b\<close> and the directory \<^verbatim>\<open>c\<close>, which
  holds the file \<^verbatim>\<open>d\<close>. Only \<^verbatim>\<open>/m/a\<close> is a module the loader accepts. The variable
  names \<^verbatim>\<open>/m\<close> and a relative path that does not exist.
\<close>

definition example_world :: world where
  "example_world =
     \<lparr>environ = [(''HOME'', ''/root''), (''UHD_MODULE_PATH'', ''/m:none'')],
      complete_path = (\<lambda>p. if take 1 p = ''/'' then Inr p else Inr (''/cwd/'' @ p)),
      fs_exists =
        (\<lambda>p. Inr (p \<in> set [''/m'', ''/m/a'', ''/m/b'', ''/m/c'', ''/m/c/d''])),
      is_directory = (\<lambda>p. Inr (p \<in> set [''/m'', ''/m/c''])),
      directory_iterator =
        (\<lambda>p. if p = ''/m'' then Inr [''/m/a'', ''/m/b'', ''/m/c'']
             else if p = ''/m/c'' then Inr [''/m/c/d'']
             else Inl (filesystem_error ''boost::filesystem::basic_directory_iterator constructor'')),
      dlopen = (\<lambda>f. if f = ''/m/a'' then Some 1 else None),
      LoadLibrary = (\<lambda>f. if f = ''/m/a'' then Some 1 else None),
      loader_error_text = (\<lambda>f. if f = ''/m/a'' then None else Some ''file too short'')\<rparr>"

definition example_tree :: tree where
  "example_tree =
     Dir ''/m'' [File ''/m/a'', File ''/m/b'', Dir ''/m/c'' [File ''/m/c/d'']]"

text \<open>A world in which every path is a directory that holds a link to itself.\<close>

definition loop_world :: world where
  "loop_world =
     example_world
       \<lparr>fs_exists := (\<lambda>p. Inr True), is_directory := (\<lambda>p. Inr True),
        directory_iterator := (\<lambda>p. Inr [p @ ''/self''])\<rparr>"

text \<open>
  A world whose variable holds one entry of 256 characters. The operating system
  refuses the status query of a name that long, and \<^verbatim>\<open>fs::exists\<close> throws.
\<close>

definition long_name :: string where
  "long_name = replicate 256 (CHR ''a'')"

definition long_name_world :: world where
  "long_name_world =
     example_world
       \<lparr>environ := [(''UHD_MODULE_PATH'', long_name)],
        fs_exists :=
          (\<lambda>p. if 255 < length p
             then Inl (filesystem_error ''boost::filesystem::exists: File name too long'')
             else fs_exists example_world p)\<rparr>"

text \<open>
  The example world for two scans in a row. In the first scan \<^verbatim>\<open>/m/b\<close> does not load,
  for want of \<^verbatim>\<open>/m/c/d\<close>, which is walked after it; \<^verbatim>\<open>/m/c/d\<close> loads. In the second
  scan \<^verbatim>\<open>/m/c/d\<close> is resident and \<^verbatim>\<open>/m/b\<close> loads. The filesystem and the variable
  are those of the example world both times.
\<close>

definition first_scan_world :: world where
  "first_scan_world =
     example_world\<lparr>dlopen := (\<lambda>f. if f = ''/m/b'' then None else Some 1)\<rparr>"

definition second_scan_world :: world where
  "second_scan_world = example_world\<lparr>dlopen := (\<lambda>f. Some 1)\<rparr>"

section \<open>The walk, step by step\<close>

lemma load_modules_entries:
  "env_module_path w \<noteq> '''' \<Longrightarrow>
   load_modules plat w n tr = for_each (load_entry plat w n) (module_paths plat w) tr"
proof -
  have "load_entry plat w n =
      (\<lambda>module_path tr'.
         case system_complete w module_path of
           Inl err \<Rightarrow> Some (Inl err, tr' @ [Resolve module_path])
         | Inr p \<Rightarrow> load_path plat w n p (tr' @ [Resolve module_path]))"
    by (intro ext) (simp add: load_entry_def)
  then show "env_module_path w \<noteq> '''' \<Longrightarrow>
   load_modules plat w n tr = for_each (load_entry plat w n) (module_paths plat w) tr"
    by (simp add: load_modules_def module_paths_def)
qed

lemma extend_simps [simp]:
  "extend tr None = None"
  "extend tr (Some (r, ev)) = Some (r, tr @ ev)"
  by (simp_all add: extend_def)

lemma extend_Nil [simp]: "extend [] out = out"
  by (cases out) auto

lemma extend_extend [simp]: "extend tr (extend tr' out) = extend (tr @ tr') out"
  by (cases out) auto

lemma for_each_frame:
  assumes body: "\<And>x tr. body x tr = extend tr (body x [])"
  shows "for_each body xs tr = extend tr (for_each body xs [])"
proof (induction xs arbitrary: tr)
  case Nil
  show ?case by simp
next
  case (Cons x xs)
  show ?case
  proof (cases "body x []")
    case None
    then show ?thesis using body[of x tr] by simp
  next
    case (Some a)
    obtain r ev where a: "a = (r, ev)" by (cases a)
    have tr: "body x tr = Some (r, tr @ ev)" using body[of x tr] Some a by simp
    show ?thesis
    proof (cases r)
      case (Inl e)
      then show ?thesis using Some a tr by simp
    next
      case (Inr u)
      have "for_each body (x # xs) tr = for_each body xs (tr @ ev)"
        using tr Inr by simp
      also have "\<dots> = extend (tr @ ev) (for_each body xs [])"
        by (rule Cons.IH)
      also have "\<dots> = extend tr (extend ev (for_each body xs []))"
        by simp
      also have "extend ev (for_each body xs []) = for_each body xs ev"
        by (rule Cons.IH[symmetric])
      also have "for_each body xs ev = for_each body (x # xs) []"
        using Some a Inr by simp
      finally show ?thesis .
    qed
  qed
qed

lemma load_path_frame:
  "load_path plat w frames p tr = extend tr (load_path plat w frames p [])"
proof (induction frames arbitrary: p tr)
  case 0
  show ?case by simp
next
  case (Suc frames)
  have loop: "for_each (load_path plat w frames) es (tr0 @ evs) =
      extend tr0 (for_each (load_path plat w frames) es evs)" for es tr0 evs
  proof -
    have "for_each (load_path plat w frames) es (tr0 @ evs) =
        extend (tr0 @ evs) (for_each (load_path plat w frames) es [])"
      by (rule for_each_frame) (rule Suc.IH)
    moreover have "for_each (load_path plat w frames) es evs =
        extend evs (for_each (load_path plat w frames) es [])"
      by (rule for_each_frame) (rule Suc.IH)
    ultimately show ?thesis by simp
  qed
  show ?case
    using loop[of _ tr "[Query_exists p, Query_is_directory p, Open_directory p]"]
    by (simp split: sum.splits)
qed

lemma load_entry_frame:
  "load_entry plat w frames mp tr = extend tr (load_entry plat w frames mp [])"
  using load_path_frame[of plat w frames _ "tr @ [Resolve mp]"]
    load_path_frame[of plat w frames _ "[Resolve mp]"]
  by (simp add: load_entry_def split: sum.splits)

lemma load_modules_frame:
  "load_modules plat w frames tr = extend tr (load_modules plat w frames [])"
proof (cases "env_module_path w = ''''")
  case True
  then show ?thesis by (simp add: load_modules_def)
next
  case False
  have "for_each (load_entry plat w frames) (module_paths plat w) tr =
        extend tr (for_each (load_entry plat w frames) (module_paths plat w) [])"
    by (rule for_each_frame) (rule load_entry_frame)
  with False show ?thesis by (simp add: load_modules_entries)
qed

lemma load_module_cases:
  "load_module plat w f =
     (if load_fails plat w f then Inl (runtime_error (failure_text plat f)) else Inr ())"
  by (cases plat) simp_all

lemma foldr_max_le: "(foldr max (map f xs) (0::nat) \<le> m) = (\<forall>x\<in>set xs. f x \<le> m)"
  by (induction xs) auto

lemma for_each_walk:
  assumes "\<And>t tr. t \<in> set ts \<Longrightarrow> body (root t) tr = Some (Inr (), tr @ ev t)"
  shows "for_each body (map root ts) tr = Some (Inr (), tr @ concat (map ev ts))"
  using assms by (induction ts arbitrary: tr) simp_all

lemma for_each_stuck:
  assumes "\<And>x tr. x \<in> set xs \<Longrightarrow> body x tr = None \<or> (\<exists>tr'. body x tr = Some (Inr (), tr'))"
    and "\<exists>x\<in>set xs. \<forall>tr. body x tr = None"
  shows "for_each body xs tr = None"
  using assms
proof (induction xs arbitrary: tr)
  case Nil
  then show ?case by simp
next
  case (Cons x xs)
  show ?case
  proof (cases "body x tr")
    case None
    then show ?thesis by simp
  next
    case (Some a)
    with Cons.prems(1)[of x tr] obtain tr' where a: "a = (Inr (), tr')" by auto
    from Some Cons.prems(2) have "\<exists>y\<in>set xs. \<forall>tr. body y tr = None" by auto
    then have "for_each body xs tr' = None"
      using Cons.prems(1) by (intro Cons.IH) auto
    with Some a show ?thesis by simp
  qed
qed

lemma load_path_tree:
  "represents w t \<Longrightarrow> nesting_depth t \<le> frames \<Longrightarrow>
   load_path plat w frames (root t) tr = Some (Inr (), tr @ walk_events plat w t)"
proof (induction t arbitrary: frames tr)
  case (Missing p)
  then obtain m where "frames = Suc m" by (cases frames) auto
  with Missing show ?case by (simp add: file_string_def)
next
  case (File p)
  then obtain m where "frames = Suc m" by (cases frames) auto
  with File show ?case
    by (simp add: file_string_def load_module_cases)
next
  case (Dir p ts)
  from Dir.prems obtain m where m: "frames = Suc m" by (cases frames) auto
  from Dir.prems m have deep: "\<forall>t\<in>set ts. nesting_depth t \<le> m"
    by (simp add: foldr_max_le)
  from Dir.prems have rep: "\<forall>t\<in>set ts. represents w t"
    by (simp add: list_all_iff)
  have "for_each (load_path plat w m) (map root ts)
          (tr @ [Query_exists p, Query_is_directory p, Open_directory p]) =
        Some (Inr (), (tr @ [Query_exists p, Query_is_directory p, Open_directory p]) @
          concat (map (walk_events plat w) ts))"
    by (rule for_each_walk) (simp add: Dir.IH rep deep)
  with Dir.prems m show ?case by simp
qed

lemma load_path_tree_short:
  "represents w t \<Longrightarrow> frames < nesting_depth t \<Longrightarrow>
   load_path plat w frames (root t) tr = None"
proof (induction t arbitrary: frames tr)
  case (Missing p)
  then show ?case by simp
next
  case (File p)
  then show ?case by simp
next
  case (Dir p ts)
  show ?case
  proof (cases frames)
    case 0
    then show ?thesis by simp
  next
    case (Suc m)
    from Dir.prems have rep: "\<forall>t\<in>set ts. represents w t"
      by (simp add: list_all_iff)
    from Dir.prems Suc have "\<not> foldr max (map nesting_depth ts) 0 \<le> m" by simp
    then obtain c where c: "c \<in> set ts" "m < nesting_depth c"
      by (auto simp: foldr_max_le not_le)
    have "for_each (load_path plat w m) (map root ts)
            (tr @ [Query_exists p, Query_is_directory p, Open_directory p]) = None"
    proof (rule for_each_stuck)
      fix x tr'
      assume "x \<in> set (map root ts)"
      then obtain t where t: "t \<in> set ts" "x = root t" by auto
      show "load_path plat w m x tr' = None \<or> (\<exists>tr''. load_path plat w m x tr' = Some (Inr (), tr''))"
      proof (cases "nesting_depth t \<le> m")
        case True
        then show ?thesis using load_path_tree[of w t m plat tr'] rep t by simp
      next
        case False
        then show ?thesis using Dir.IH[of t m tr'] rep t by simp
      qed
    next
      have "\<forall>tr. load_path plat w m (root c) tr = None"
        using Dir.IH[of c m] rep c by simp
      with c(1) show "\<exists>x\<in>set (map root ts). \<forall>tr. load_path plat w m x tr = None"
        by auto
    qed
    with Dir.prems Suc show ?thesis by simp
  qed
qed

lemma for_each_scan:
  assumes "map f mps = map (\<lambda>t. Inr (root t)) ts"
    and "\<And>t tr. t \<in> set ts \<Longrightarrow> walk (root t) tr = Some (Inr (), tr @ ev t)"
  shows "for_each (\<lambda>mp tr'. case f mp of Inl err \<Rightarrow> Some (Inl err, tr' @ [Resolve mp])
            | Inr p \<Rightarrow> walk p (tr' @ [Resolve mp])) mps tr =
         Some (Inr (), tr @ concat (map (\<lambda>(mp, t). Resolve mp # ev t) (zip mps ts)))"
  using assms
proof (induction mps arbitrary: ts tr)
  case Nil
  then show ?case by simp
next
  case (Cons mp mps)
  from Cons.prems(1) obtain t ts' where ts: "ts = t # ts'" by (cases ts) auto
  with Cons.prems(1) have r: "f mp = Inr (root t)"
    and rest: "map f mps = map (\<lambda>t. Inr (root t)) ts'" by auto
  have "walk (root t) (tr @ [Resolve mp]) = Some (Inr (), (tr @ [Resolve mp]) @ ev t)"
    using Cons.prems(2)[of t "tr @ [Resolve mp]"] ts by simp
  moreover have "for_each (\<lambda>mp tr'. case f mp of Inl err \<Rightarrow> Some (Inl err, tr' @ [Resolve mp])
            | Inr p \<Rightarrow> walk p (tr' @ [Resolve mp])) mps ((tr @ [Resolve mp]) @ ev t) =
      Some (Inr (), ((tr @ [Resolve mp]) @ ev t) @ concat (map (\<lambda>(mp, t). Resolve mp # ev t) (zip mps ts')))"
    using rest Cons.prems(2) ts by (intro Cons.IH) auto
  ultimately show ?case using ts r by simp
qed

lemma load_modules_trees:
  assumes "env_module_path w \<noteq> ''''"
    and "covers w (module_paths plat w) ts"
    and "list_all (\<lambda>t. nesting_depth t \<le> frames) ts"
  shows "load_modules plat w frames tr =
         Some (Inr (), tr @ scan_events plat w (module_paths plat w) ts)"
proof -
  have "for_each (\<lambda>mp tr'. case system_complete w mp of
            Inl err \<Rightarrow> Some (Inl err, tr' @ [Resolve mp])
          | Inr p \<Rightarrow> load_path plat w frames p (tr' @ [Resolve mp]))
          (module_paths plat w) tr =
        Some (Inr (), tr @ concat (map (\<lambda>(mp, t). Resolve mp # walk_events plat w t)
          (zip (module_paths plat w) ts)))"
  proof (rule for_each_scan)
    show "map (system_complete w) (module_paths plat w) = map (\<lambda>t. Inr (root t)) ts"
      using assms(2) by (simp add: covers_def)
  next
    fix t tr
    assume "t \<in> set ts"
    with assms(2,3) have "represents w t" "nesting_depth t \<le> frames"
      by (auto simp: covers_def list_all_iff)
    then show "load_path plat w frames (root t) tr = Some (Inr (), tr @ walk_events plat w t)"
      by (rule load_path_tree)
  qed
  with assms(1) show ?thesis
    by (simp add: load_modules_def module_paths_def scan_events_def)
qed

lemma length_covers: "covers w mps ts \<Longrightarrow> length ts = length mps"
  by (auto simp: covers_def dest: map_eq_imp_length_eq)

lemma load_path_cycle:
  assumes closed: "\<And>q. q \<in> C \<Longrightarrow> fs_exists w q = Inr True \<and> is_directory w q = Inr True \<and>
      (\<exists>e es. directory_iterator w q = Inr (e # es) \<and> e \<in> C)"
  shows "p \<in> C \<Longrightarrow> load_path plat w n p tr = None"
proof (induction n arbitrary: p tr)
  case 0
  show ?case by simp
next
  case (Suc n)
  from closed[OF Suc.prems] obtain e es where
    es: "directory_iterator w p = Inr (e # es)" and e: "e \<in> C"
    by auto
  have "load_path plat w n e (tr @ [Query_exists p, Query_is_directory p, Open_directory p]) = None"
    using e by (rule Suc.IH)
  then show ?case using closed[OF Suc.prems] es by simp
qed

lemma walk_of_simps [simp]:
  "walk_of [] = []"
  "walk_of (e # ev) = (if is_load_error e then walk_of ev else e # walk_of ev)"
  "walk_of (xs @ ys) = walk_of xs @ walk_of ys"
  by (simp_all add: walk_of_def)

lemma walk_outcome_simps [simp]:
  "walk_outcome None = None"
  "walk_outcome (Some (r, ev)) = Some (r, walk_of ev)"
  by (simp_all add: walk_outcome_def)

lemma walk_outcome_eq_None [simp]: "(walk_outcome out = None) = (out = None)"
  by (cases out) auto

lemma for_each_sim:
  assumes body: "\<And>x tr tr'. walk_of tr' = walk_of tr \<Longrightarrow>
      walk_outcome (body' x tr') = walk_outcome (body x tr)"
  shows "walk_of tr' = walk_of tr \<Longrightarrow>
      walk_outcome (for_each body' xs tr') = walk_outcome (for_each body xs tr)"
proof (induction xs arbitrary: tr tr')
  case Nil
  then show ?case by simp
next
  case (Cons x xs)
  note step = body[OF Cons.prems, of x]
  show ?case
  proof (cases "body x tr")
    case None
    with step have "body' x tr' = None" by simp
    with None show ?thesis by simp
  next
    case (Some a)
    obtain r ev where a: "a = (r, ev)" by (cases a)
    from step Some a obtain ev' where b': "body' x tr' = Some (r, ev')"
      and ev': "walk_of ev' = walk_of ev"
      by (cases "body' x tr'") auto
    show ?thesis
    proof (cases r)
      case (Inl e)
      with Some a b' ev' show ?thesis by simp
    next
      case (Inr u)
      have "walk_outcome (for_each body' xs ev') = walk_outcome (for_each body xs ev)"
        using ev' by (rule Cons.IH)
      with Some a b' Inr show ?thesis by simp
    qed
  qed
qed

lemma is_load_error_failed:
  "is_load_error (Cerr (''Error: '' @ msg))"
  by simp

lemma load_path_sim:
  assumes same: "same_inputs w w'"
  shows "walk_of tr' = walk_of tr \<Longrightarrow>
    walk_outcome (load_path plat w' n p tr') = walk_outcome (load_path plat w n p tr)"
proof (induction n arbitrary: p tr tr')
  case 0
  show ?case by simp
next
  case (Suc n)
  from same have f: "fs_exists w' = fs_exists w" "is_directory w' = is_directory w"
    "directory_iterator w' = directory_iterator w"
    by (simp_all add: same_inputs_def)
  have loop: "walk_outcome (for_each (load_path plat w' n) es
        (tr' @ [Query_exists p, Query_is_directory p, Open_directory p])) =
      walk_outcome (for_each (load_path plat w n) es
        (tr @ [Query_exists p, Query_is_directory p, Open_directory p]))" for es
    by (rule for_each_sim) (simp_all add: Suc.IH Suc.prems)
  show ?case
    using Suc.prems loop
    by (simp add: f split: sum.splits)
qed

lemma load_entry_sim:
  assumes same: "same_inputs w w'"
  shows "walk_of tr' = walk_of tr \<Longrightarrow>
    walk_outcome (load_entry plat w' n mp tr') = walk_outcome (load_entry plat w n mp tr)"
proof -
  assume tr: "walk_of tr' = walk_of tr"
  from same have c: "system_complete w' = system_complete w"
    by (intro ext) (simp add: system_complete_def same_inputs_def)
  have "walk_outcome (load_path plat w' n q (tr' @ [Resolve mp])) =
      walk_outcome (load_path plat w n q (tr @ [Resolve mp]))" for q
    using same by (rule load_path_sim) (simp add: tr)
  then show ?thesis
    using tr by (simp add: load_entry_def c split: sum.splits)
qed

lemma env_module_path_same:
  "same_inputs w w' \<Longrightarrow> env_module_path w' = env_module_path w"
  by (simp add: same_inputs_def env_module_path_def)

lemma load_modules_sim:
  assumes same: "same_inputs w w'"
  shows "walk_outcome (load_modules plat w' n []) = walk_outcome (load_modules plat w n [])"
proof (cases "env_module_path w = ''''")
  case True
  then show ?thesis using env_module_path_same[OF same] by (simp add: load_modules_def)
next
  case False
  have mp: "module_paths plat w' = module_paths plat w"
    using env_module_path_same[OF same] by (simp add: module_paths_def)
  have "walk_outcome (for_each (load_entry plat w' n) (module_paths plat w) []) =
      walk_outcome (for_each (load_entry plat w n) (module_paths plat w) [])"
    by (rule for_each_sim) (simp_all add: load_entry_sim[OF same])
  then show ?thesis
    using False env_module_path_same[OF same] mp by (simp add: load_modules_entries)
qed

lemma load_module_same:
  "same_loader w w' \<Longrightarrow> load_module plat w' f = load_module plat w f"
  by (cases plat) (simp_all add: same_loader_def)

lemma load_path_same:
  assumes "same_inputs w w'" and "same_loader w w'"
  shows "load_path plat w' n = load_path plat w n"
proof (induction n)
  case 0
  show ?case by (intro ext) simp
next
  case (Suc n)
  from assms(1) have f: "fs_exists w' = fs_exists w" "is_directory w' = is_directory w"
    "directory_iterator w' = directory_iterator w"
    by (simp_all add: same_inputs_def)
  show ?case
    by (intro ext) (simp add: f Suc load_module_same[OF assms(2)] cong: sum.case_cong if_cong)
qed

lemma load_modules_same:
  assumes "same_inputs w w'" and "same_loader w w'"
  shows "load_modules plat w' n tr = load_modules plat w n tr"
proof -
  from assms(1) have c: "system_complete w' = system_complete w"
    by (intro ext) (simp add: system_complete_def same_inputs_def)
  show ?thesis
    using env_module_path_same[OF assms(1)]
    by (simp add: load_modules_def c load_path_same[OF assms] cong: sum.case_cong)
qed

lemma attempt_of_load_error: "is_load_error e \<Longrightarrow> attempt_of e = []"
  by (cases e) simp_all

lemma load_attempts_simps [simp]:
  "load_attempts [] = []"
  "load_attempts (e # ev) = attempt_of e @ load_attempts ev"
  "load_attempts (xs @ ys) = load_attempts xs @ load_attempts ys"
  by (simp_all add: load_attempts_def)

lemma load_attempts_walk_of: "load_attempts (walk_of ev) = load_attempts ev"
  by (induction ev) (simp_all add: attempt_of_load_error)

lemma diagnostics_simps [simp]:
  "diagnostics [] = []"
  "diagnostics (e # ev) = line_of e @ diagnostics ev"
  "diagnostics (xs @ ys) = diagnostics xs @ diagnostics ys"
  by (simp_all add: diagnostics_def)

lemma resolved_simps [simp]:
  "resolved [] = []"
  "resolved (e # ev) = resolve_of e @ resolved ev"
  "resolved (xs @ ys) = resolved xs @ resolved ys"
  by (simp_all add: resolved_def)

lemma load_errors_simps [simp]:
  "load_errors [] = []"
  "load_errors (e # ev) = filter (prefix ''Error: '') (line_of e) @ load_errors ev"
  "load_errors (xs @ ys) = load_errors xs @ load_errors ys"
  by (simp_all add: load_errors_def)

lemma load_attempts_concat: "load_attempts (concat xss) = concat (map load_attempts xss)"
  by (induction xss) simp_all


lemma load_errors_concat: "load_errors (concat xss) = concat (map load_errors xss)"
  by (induction xss) simp_all

lemma load_attempts_walk: "load_attempts (walk_events plat w t) = files t"
proof (induction t)
  case (Dir p ts)
  have "concat (map (load_attempts \<circ> walk_events plat w) ts) = concat (map files ts)"
    by (rule arg_cong[where f = concat]) (simp add: Dir)
  then show ?case
    by (simp add: load_attempts_concat)
qed simp_all


lemma load_errors_walk:
  "load_errors (walk_events plat w t) =
   map (\<lambda>f. ''Error: '' @ failure_text plat f) (filter (load_fails plat w) (files t))"
proof (induction t)
  case (Dir p ts)
  have "concat (map (load_errors \<circ> walk_events plat w) ts) =
      concat (map (\<lambda>t. map (\<lambda>f. ''Error: '' @ failure_text plat f)
        (filter (load_fails plat w) (files t))) ts)"
    by (rule arg_cong[where f = concat]) (simp add: Dir)
  then show ?case
    by (simp add: load_errors_concat map_concat filter_concat o_def)
qed simp_all

lemma length_split_from:
  "length (split_from Pred tok s) = Suc (length (filter Pred s))"
  by (induction s arbitrary: tok) simp_all

lemma split_from_token:
  "\<forall>c\<in>set e. \<not> Pred c \<Longrightarrow> split_from Pred tok (e @ s) = split_from Pred (tok @ e) s"
  by (induction e arbitrary: tok) simp_all

lemma split_from_join:
  assumes sep: "\<And>c. Pred c = (c = sep)"
  shows "es \<noteq> [] \<Longrightarrow> \<forall>e\<in>set es. sep \<notin> set e \<Longrightarrow>
   split_from Pred tok (join sep es) = (tok @ hd es) # tl es"
proof (induction es arbitrary: tok rule: induct_list012)
  case 1
  then show ?case by simp
next
  case (2 x)
  then have "\<forall>c\<in>set x. \<not> Pred c" using sep by auto
  then have "split_from Pred tok (x @ []) = split_from Pred (tok @ x) []"
    by (rule split_from_token)
  then show ?case by simp
next
  case (3 x y ys)
  from 3(4) have "\<forall>c\<in>set x. \<not> Pred c" using sep by auto
  then have "split_from Pred tok (x @ sep # join sep (y # ys)) =
        split_from Pred (tok @ x) (sep # join sep (y # ys))"
    by (rule split_from_token)
  also have "\<dots> = (tok @ x) # split_from Pred [] (join sep (y # ys))"
    using sep[of sep] by simp
  also have "split_from Pred [] (join sep (y # ys)) = ([] @ hd (y # ys)) # tl (y # ys)"
    using 3(4) by (intro 3(2)) auto
  finally show ?case by simp
qed

lemma is_any_of_single: "is_any_of [sep] c = (c = sep)"
  by (simp add: is_any_of_def)

lemma split_join:
  "es \<noteq> [] \<Longrightarrow> \<forall>e\<in>set es. sep \<notin> set e \<Longrightarrow> split (is_any_of [sep]) (join sep es) = es"
  using split_from_join[of "is_any_of [sep]" sep es "[]"]
  by (simp add: split_def is_any_of_single)




lemma split_from_all_separators:
  "\<forall>c\<in>set s. Pred c \<Longrightarrow> split_from Pred tok s = tok # replicate (length s) []"
  by (induction s arbitrary: tok) simp_all

lemma split_all_separators:
  "\<forall>c\<in>set s. Pred c \<Longrightarrow> split Pred s = replicate (Suc (length s)) []"
  by (simp add: split_def split_from_all_separators)


lemma load_attempts_scan:
  "length ts = length mps \<Longrightarrow> load_attempts (scan_events plat w mps ts) = concat (map files ts)"
  by (induction mps ts rule: list_induct2') (simp_all add: scan_events_def load_attempts_walk)

lemma load_errors_scan:
  "length ts = length mps \<Longrightarrow>
   load_errors (scan_events plat w mps ts) =
   map (\<lambda>f. ''Error: '' @ failure_text plat f) (filter (load_fails plat w) (concat (map files ts)))"
  by (induction mps ts rule: list_induct2') (simp_all add: scan_events_def load_errors_walk)

lemma isl_load_module: "isl (load_module plat w f) = load_fails plat w f"
  by (simp add: load_module_cases)

lemma sublist_failure_text: "sublist p (pre @ failure_text plat p)"
proof (cases plat)
  case HAVE_DLFCN_H
  have "sublist p ((pre @ ''dlopen failed to load \"'') @ p @ ''\"'')"
    by (rule sublist_appendI)
  with HAVE_DLFCN_H show ?thesis by simp
next
  case HAVE_WINDOWS_H
  have "sublist p ((pre @ ''LoadLibrary failed to load \"'') @ p @ ''\"'')"
    by (rule sublist_appendI)
  with HAVE_WINDOWS_H show ?thesis by simp
next
  case NO_LOADER
  have "sublist p ((pre @ ''Module loading not supported: Cannot load \"'') @ p @ ''\"'')"
    by (rule sublist_appendI)
  with NO_LOADER show ?thesis by simp
qed

lemma load_module_ignores_text:
  "load_module plat (w\<lparr>loader_error_text := txt\<rparr>) f = load_module plat w f"
  by (cases plat) simp_all

lemma walk_of_concat: "walk_of (concat xss) = concat (map walk_of xss)"
  by (induction xss) simp_all

lemma walk_of_walk_events:
  "walk_of (walk_events plat w t) = walk_of (walk_events plat' w t)"
proof (induction t)
  case (Dir p ts)
  have "concat (map (walk_of \<circ> walk_events plat w) ts) =
        concat (map (walk_of \<circ> walk_events plat' w) ts)"
    by (rule arg_cong[where f = concat]) (simp add: Dir)
  then show ?case
    by (simp add: walk_of_concat)
qed simp_all

lemma walk_of_scan_events:
  "walk_of (scan_events plat w mps ts) = walk_of (scan_events plat' w mps ts)"
proof -
  have "map (walk_of \<circ> (\<lambda>(mp, t). Resolve mp # walk_events plat w t)) (zip mps ts) =
        map (walk_of \<circ> (\<lambda>(mp, t). Resolve mp # walk_events plat' w t)) (zip mps ts)"
    using walk_of_walk_events[of plat w _ plat'] by auto
  then have "concat (map (walk_of \<circ> (\<lambda>(mp, t). Resolve mp # walk_events plat w t)) (zip mps ts)) =
        concat (map (walk_of \<circ> (\<lambda>(mp, t). Resolve mp # walk_events plat' w t)) (zip mps ts))"
    by (rule arg_cong)
  then show ?thesis
    by (simp add: scan_events_def walk_of_concat)
qed

lemma map_of_parse_environment:
  "map_of (parse_environment name_mapper vars) MODULE_PATH_KEY = map_of vars MODULE_PATH_KEY"
  by (induction vars) (auto simp: parse_environment_def name_mapper_def MODULE_PATH_KEY_def)

lemma walk_events_starts:
  "\<exists>rest. walk_events plat w t = Query_exists (root t) # rest"
  by (cases t) simp_all

lemma for_each_cong:
  "(\<And>x tr. x \<in> set xs \<Longrightarrow> body x tr = body' x tr) \<Longrightarrow>
   for_each body xs tr = for_each body' xs tr"
proof (induction xs arbitrary: tr)
  case Nil
  show ?case by simp
next
  case (Cons x xs)
  have "body x tr = body' x tr" by (rule Cons.prems) simp
  moreover have "for_each body xs tr' = for_each body' xs tr'" for tr'
    by (rule Cons.IH) (simp add: Cons.prems)
  ultimately show ?case by (simp cong: option.case_cong sum.case_cong prod.case_cong)
qed

lemma split_no_separator:
  "\<forall>c\<in>set s. \<not> Pred c \<Longrightarrow> split Pred s = [s]"
  using split_from_token[of s Pred "[]" "[]"] by (simp add: split_def)

subsection \<open>What the handler of \<^verbatim>\<open>load_path\<close> takes\<close>

text \<open>
  An exception of \<^verbatim>\<open>load_module\<close> ends in the handler: one line, and a normal return.
  On finite trees with frames enough the scan returns normally, every file is handed to
  \<^verbatim>\<open>load_module\<close>, those after a failure too, and the lines of the handler are one for
  each file that fails, in the order of the walk.
\<close>

lemma load_failure_caught_locally:
  "fs_exists w p = Inr True \<Longrightarrow> is_directory w p = Inr False \<Longrightarrow>
   load_module plat w p = Inl err \<Longrightarrow>
   load_path plat w (Suc n) p tr =
     Some (Inr (), tr @ [Query_exists p, Query_is_directory p, Load_attempt p,
       Cerr (''Error: '' @ what err)])"
  by (simp add: file_string_def)

lemma load_failures_on_trees:
  assumes "env_module_path w \<noteq> ''''" and "covers w (module_paths plat w) ts"
    and "list_all (\<lambda>t. nesting_depth t \<le> n) ts"
  shows "\<exists>ev. load_modules plat w n tr = Some (Inr (), tr @ ev) \<and>
         load_attempts ev = concat (map files ts) \<and>
         load_errors ev =
           map (\<lambda>f. ''Error: '' @ failure_text plat f)
             (filter (\<lambda>f. isl (load_module plat w f)) (concat (map files ts)))"
proof -
  let ?ev = "scan_events plat w (module_paths plat w) ts"
  from assms(2) have len: "length ts = length (module_paths plat w)"
    by (rule length_covers)
  have "load_modules plat w n tr = Some (Inr (), tr @ ?ev)"
    using assms by (rule load_modules_trees)
  moreover have "load_attempts ?ev = concat (map files ts)"
    using len by (rule load_attempts_scan)
  moreover have "load_errors ?ev =
      map (\<lambda>f. ''Error: '' @ failure_text plat f)
        (filter (\<lambda>f. isl (load_module plat w f)) (concat (map files ts)))"
    using load_errors_scan[OF len, of plat w] by (simp add: isl_load_module[abs_def])
  ultimately show ?thesis by blast
qed

subsection \<open>The example world, evaluated\<close>

lemma example_represents: "represents example_world example_tree"
  by (simp add: example_world_def example_tree_def)

lemma example_env_module_path: "env_module_path example_world = ''/m:none''"
  by (simp add: env_module_path_def parse_environment_def name_mapper_def MODULE_PATH_KEY_def
      example_world_def)

lemma example_module_paths: "module_paths HAVE_DLFCN_H example_world = [''/m'', ''none'']"
  by (simp add: module_paths_def example_env_module_path split_def is_any_of_def)

lemma example_covers:
  "covers example_world [''/m'', ''none''] [example_tree, Missing ''/cwd/none'']"
  by (simp add: covers_def system_complete_def example_world_def example_tree_def)

lemma example_depths:
  "list_all (\<lambda>t. nesting_depth t \<le> 3) [example_tree, Missing ''/cwd/none'']"
  by (simp add: example_tree_def)

lemma long_name_env: "env_module_path long_name_world = long_name"
  by (simp add: env_module_path_def parse_environment_def name_mapper_def MODULE_PATH_KEY_def
      long_name_world_def)

lemma long_name_paths: "module_paths HAVE_DLFCN_H long_name_world = [long_name]"
  by (simp add: module_paths_def long_name_env split_no_separator is_any_of_def long_name_def)

lemma long_name_complete:
  "system_complete long_name_world long_name = Inr (''/cwd/'' @ long_name)"
  by (simp add: system_complete_def long_name_world_def example_world_def long_name_def)

lemma colon_env:
  "env_module_path (example_world\<lparr>environ := [(''UHD_MODULE_PATH'', '':'')]\<rparr>) = '':''"
  by (simp add: env_module_path_def parse_environment_def name_mapper_def MODULE_PATH_KEY_def)

lemma scan_world_runs:
  "load_modules HAVE_DLFCN_H first_scan_world 3 [] =
     Some (Inr (), scan_events HAVE_DLFCN_H first_scan_world [''/m'', ''none'']
       [example_tree, Missing ''/cwd/none''])"
  "load_modules HAVE_DLFCN_H second_scan_world 3 [] =
     Some (Inr (), scan_events HAVE_DLFCN_H second_scan_world [''/m'', ''none'']
       [example_tree, Missing ''/cwd/none''])"
proof -
  have same: "same_inputs example_world first_scan_world"
    "same_inputs example_world second_scan_world"
    by (simp_all add: same_inputs_def first_scan_world_def second_scan_world_def)
  have cov: "covers w [''/m'', ''none''] [example_tree, Missing ''/cwd/none''] \<and>
      env_module_path w \<noteq> '''' \<and> module_paths HAVE_DLFCN_H w = [''/m'', ''none'']"
    if "same_inputs example_world w" for w
  proof -
    from that have c: "system_complete w = system_complete example_world"
      by (intro ext) (simp add: system_complete_def same_inputs_def)
    from that have f: "fs_exists w = fs_exists example_world"
      "is_directory w = is_directory example_world"
      "directory_iterator w = directory_iterator example_world"
      by (simp_all add: same_inputs_def)
    have "represents w example_tree"
      using example_represents by (simp add: example_tree_def f)
    moreover have "represents w (Missing ''/cwd/none'')"
      by (simp add: f example_world_def)
    moreover have "map (system_complete w) [''/m'', ''none''] =
        map (\<lambda>t. Inr (root t)) [example_tree, Missing ''/cwd/none'']"
      using example_covers by (simp add: covers_def c)
    ultimately show ?thesis
      using env_module_path_same[OF that] example_env_module_path example_module_paths
      by (simp add: covers_def module_paths_def)
  qed
  show "load_modules HAVE_DLFCN_H first_scan_world 3 [] =
     Some (Inr (), scan_events HAVE_DLFCN_H first_scan_world [''/m'', ''none'']
       [example_tree, Missing ''/cwd/none''])"
    using load_modules_trees[of first_scan_world HAVE_DLFCN_H
        "[example_tree, Missing ''/cwd/none'']" 3 "[]"] cov[OF same(1)] example_depths
    by simp
  show "load_modules HAVE_DLFCN_H second_scan_world 3 [] =
     Some (Inr (), scan_events HAVE_DLFCN_H second_scan_world [''/m'', ''none'']
       [example_tree, Missing ''/cwd/none''])"
    using load_modules_trees[of second_scan_world HAVE_DLFCN_H
        "[example_tree, Missing ''/cwd/none'']" 3 "[]"] cov[OF same(2)] example_depths
    by simp
qed

lemma scan_world_lines:
  "diagnostics (scan_events HAVE_DLFCN_H first_scan_world [''/m'', ''none'']
       [example_tree, Missing ''/cwd/none'']) =
     [''Error: dlopen failed to load \"/m/b\"'', ''Module path \"/cwd/none\" not found.'']"
  "diagnostics (scan_events HAVE_DLFCN_H second_scan_world [''/m'', ''none'']
       [example_tree, Missing ''/cwd/none'']) =
     [''Module path \"/cwd/none\" not found.'']"
  by (simp_all add: scan_events_def example_tree_def first_scan_world_def
      second_scan_world_def)

section \<open>Properties\<close>

text \<open>
  C1. The handler of \<^verbatim>\<open>load_path\<close> takes what \<^verbatim>\<open>load_module\<close> throws, and that is
  all it takes: the queries of the filesystem stand outside the \<^verbatim>\<open>try\<close> block. With an
  entry of 256 characters \<^verbatim>\<open>fs::exists\<close> throws; the exception leaves \<^verbatim>\<open>load_path\<close>,
  which its comment says does not throw, and then the static block.
\<close>

theorem filesystem_error_leaves_loader:
  "load_path HAVE_DLFCN_H long_name_world 1 (''/cwd/'' @ long_name) [] =
     Some (Inl (filesystem_error ''boost::filesystem::exists: File name too long''),
       [Query_exists (''/cwd/'' @ long_name)]) \<and>
   load_modules HAVE_DLFCN_H long_name_world 1 [] =
     Some (Inl (filesystem_error ''boost::filesystem::exists: File name too long''),
       [Resolve long_name, Query_exists (''/cwd/'' @ long_name)])"
proof -
  have ne: "env_module_path long_name_world \<noteq> ''''"
    by (simp add: long_name_env long_name_def)
  have q: "fs_exists long_name_world (''/cwd/'' @ long_name) =
      Inl (filesystem_error ''boost::filesystem::exists: File name too long'')"
    by (simp add: long_name_world_def long_name_def)
  have walk: "load_path HAVE_DLFCN_H long_name_world 1 (''/cwd/'' @ long_name) tr =
      Some (Inl (filesystem_error ''boost::filesystem::exists: File name too long''),
        tr @ [Query_exists (''/cwd/'' @ long_name)])" for tr
    using q by simp
  have "load_modules HAVE_DLFCN_H long_name_world 1 [] =
      for_each (load_entry HAVE_DLFCN_H long_name_world 1) [long_name] []"
    using load_modules_entries[OF ne, of HAVE_DLFCN_H 1 "[]"] by (simp add: long_name_paths)
  also have "\<dots> = Some (Inl (filesystem_error ''boost::filesystem::exists: File name too long''),
       [Resolve long_name, Query_exists (''/cwd/'' @ long_name)])"
    using walk[of "[Resolve long_name]"] by (simp add: load_entry_def long_name_complete)
  finally show ?thesis using walk[of "[]"] by simp
qed

text \<open>
  C2. The line for a failed load is to hold the path and the error text of the loading
  facility. In the example world \<^verbatim>\<open>dlopen\<close> refuses \<^verbatim>\<open>/m/b\<close> and the facility reports
  "file too short"; the line written holds the path and not that text.
\<close>

theorem diagnostic_omits_loader_text:
  "dlopen example_world ''/m/b'' = None \<and>
   loader_error_text example_world ''/m/b'' = Some ''file too short'' \<and>
   load_path HAVE_DLFCN_H example_world (Suc 0) ''/m/b'' [] =
     Some (Inr (), [Query_exists ''/m/b'', Query_is_directory ''/m/b'', Load_attempt ''/m/b'',
       Cerr ''Error: dlopen failed to load \"/m/b\"'']) \<and>
   \<not> sublist ''file too short'' ''Error: dlopen failed to load \"/m/b\"''"
proof -
  have "dlopen example_world ''/m/b'' = None"
    and "loader_error_text example_world ''/m/b'' = Some ''file too short''"
    by (simp_all add: example_world_def)
  moreover have "load_path HAVE_DLFCN_H example_world (Suc 0) ''/m/b'' [] =
     Some (Inr (), [Query_exists ''/m/b'', Query_is_directory ''/m/b'', Load_attempt ''/m/b'',
       Cerr ''Error: dlopen failed to load \"/m/b\"''])"
    by (simp add: example_world_def file_string_def)
  moreover have "\<not> sublist ''file too short'' ''Error: dlopen failed to load \"/m/b\"''"
    by code_simp
  ultimately show ?thesis by simp
qed

text \<open>
  C2, as the code has it. The line for a failed load is "Error: " and the text of the
  exception of \<^verbatim>\<open>load_module\<close>: a fixed sentence of the platform with the path in
  quotes. It holds the path, and it is the same whatever the loading facility reports.
\<close>

theorem diagnostic_names_file_only:
  "fs_exists w p = Inr True \<Longrightarrow> is_directory w p = Inr False \<Longrightarrow>
   load_module plat w p = Inl err \<Longrightarrow>
   load_path plat (w\<lparr>loader_error_text := txt\<rparr>) (Suc n) p tr =
     Some (Inr (), tr @ [Query_exists p, Query_is_directory p, Load_attempt p,
       Cerr (''Error: '' @ what err)]) \<and>
   what err = failure_text plat p \<and>
   sublist p (''Error: '' @ what err)"
proof -
  assume ex: "fs_exists w p = Inr True" and nd: "is_directory w p = Inr False"
    and fail: "load_module plat w p = Inl err"
  have "load_module plat (w\<lparr>loader_error_text := txt\<rparr>) p = Inl err"
    using fail by (simp add: load_module_ignores_text)
  then have "load_path plat (w\<lparr>loader_error_text := txt\<rparr>) (Suc n) p tr =
     Some (Inr (), tr @ [Query_exists p, Query_is_directory p, Load_attempt p,
       Cerr (''Error: '' @ what err)])"
    using ex nd by (simp add: file_string_def)
  moreover have w: "what err = failure_text plat p"
    using fail by (auto simp: load_module_cases split: if_splits)
  moreover have "sublist p (''Error: '' @ what err)"
    unfolding w by (rule sublist_failure_text)
  ultimately show ?thesis by simp
qed

theorem diagnostic_names_file_only_witness:
  "load_path HAVE_DLFCN_H (example_world\<lparr>loader_error_text := (\<lambda>f. Some ''wrong ELF class'')\<rparr>)
     (Suc 0) ''/m/b'' [] =
     Some (Inr (), [Query_exists ''/m/b'', Query_is_directory ''/m/b'', Load_attempt ''/m/b'',
       Cerr ''Error: dlopen failed to load \"/m/b\"'']) \<and>
   sublist ''/m/b'' ''Error: dlopen failed to load \"/m/b\"''"
proof -
  have ex: "fs_exists example_world ''/m/b'' = Inr True"
    and nd: "is_directory example_world ''/m/b'' = Inr False"
    and fail: "load_module HAVE_DLFCN_H example_world ''/m/b'' =
      Inl (runtime_error ''dlopen failed to load \"/m/b\"'')"
    by (simp_all add: example_world_def)
  show ?thesis
    using diagnostic_names_file_only [OF ex nd fail, of "\<lambda>f. Some ''wrong ELF class''" 0 "[]"]
    by simp
qed



text \<open>
  C4. A path of which \<^verbatim>\<open>fs::exists\<close> answers that it does not exist gets the query,
  one line "not found" that names it, and nothing else: no entry of it is visited and no
  load is attempted.
\<close>

theorem missing_path_not_found:
  "fs_exists w p = Inr False \<Longrightarrow>
   load_path plat w (Suc frames) p tr =
     Some (Inr (), tr @ [Query_exists p, Cerr (''Module path \"'' @ p @ ''\" not found.'')])"
  by (simp add: file_string_def)

theorem missing_path_not_found_witness:
  "fs_exists example_world ''/cwd/none'' = Inr False \<and>
   load_path HAVE_DLFCN_H example_world (Suc 0) ''/cwd/none'' [] =
     Some (Inr (), [Query_exists ''/cwd/none'', Cerr ''Module path \"/cwd/none\" not found.''])"
proof -
  have missing: "fs_exists example_world ''/cwd/none'' = Inr False"
    by (simp add: example_world_def)
  show ?thesis
    using missing missing_path_not_found [OF missing, of HAVE_DLFCN_H 0 "[]"] by simp
qed

text \<open>
  C5. For a path that exists and is a directory, \<^verbatim>\<open>load_path\<close> opens it and runs
  \<^verbatim>\<open>load_path\<close> on each entry in the order of the iteration, with one frame less.
  On a finite tree the walk returns normally and the files handed to
  \<^verbatim>\<open>load_module\<close> are the files of the tree at every depth, whatever the order in
  which the directories list their entries.
\<close>

theorem directory_walk_reaches_nested_files:
  "(fs_exists w p = Inr True \<and> is_directory w p = Inr True \<and>
    directory_iterator w p = Inr entries \<longrightarrow>
      load_path plat w (Suc n) p tr =
        for_each (load_path plat w n) entries
          (tr @ [Query_exists p, Query_is_directory p, Open_directory p])) \<and>
   (represents w t \<and> nesting_depth t \<le> n \<longrightarrow>
      (\<exists>ev. load_path plat w n (root t) tr = Some (Inr (), tr @ ev) \<and>
         load_attempts ev = files t))"
proof (intro conjI impI)
  assume "fs_exists w p = Inr True \<and> is_directory w p = Inr True \<and>
    directory_iterator w p = Inr entries"
  then show "load_path plat w (Suc n) p tr =
        for_each (load_path plat w n) entries
          (tr @ [Query_exists p, Query_is_directory p, Open_directory p])"
    by simp
next
  assume "represents w t \<and> nesting_depth t \<le> n"
  then have "load_path plat w n (root t) tr = Some (Inr (), tr @ walk_events plat w t)"
    by (simp add: load_path_tree)
  moreover have "load_attempts (walk_events plat w t) = files t"
    by (rule load_attempts_walk)
  ultimately show "\<exists>ev. load_path plat w n (root t) tr = Some (Inr (), tr @ ev) \<and>
         load_attempts ev = files t"
    by blast
qed

theorem directory_walk_reaches_nested_files_witness:
  "(\<exists>ev. load_path HAVE_DLFCN_H example_world 3 ''/m'' [] = Some (Inr (), ev) \<and>
      load_attempts ev = [''/m/a'', ''/m/b'', ''/m/c/d'']) \<and>
   (\<exists>ev. load_path HAVE_DLFCN_H
        (example_world\<lparr>directory_iterator :=
           (\<lambda>p. if p = ''/m'' then Inr [''/m/c'', ''/m/b'', ''/m/a'']
                else Inr [''/m/c/d''])\<rparr>) 3 ''/m'' [] =
        Some (Inr (), ev) \<and>
      load_attempts ev = [''/m/c/d'', ''/m/b'', ''/m/a''])"
proof -
  let ?w = "example_world\<lparr>directory_iterator :=
           (\<lambda>p. if p = ''/m'' then Inr [''/m/c'', ''/m/b'', ''/m/a'']
                else Inr [''/m/c/d''])\<rparr>"
  let ?t = "Dir ''/m'' [Dir ''/m/c'' [File ''/m/c/d''], File ''/m/b'', File ''/m/a'']"
  have a: "represents example_world example_tree \<and> nesting_depth example_tree \<le> 3"
    using example_represents by (simp add: example_tree_def)
  have b: "represents ?w ?t \<and> nesting_depth ?t \<le> 3"
    by (simp add: example_world_def)
  from directory_walk_reaches_nested_files [of example_world "''/m''" "[]" HAVE_DLFCN_H 3 "[]"
      example_tree] a
  have "\<exists>ev. load_path HAVE_DLFCN_H example_world 3 (root example_tree) [] =
      Some (Inr (), [] @ ev) \<and> load_attempts ev = files example_tree"
    by blast
  moreover
  from directory_walk_reaches_nested_files [of ?w "''/m''" "[]" HAVE_DLFCN_H 3 "[]" ?t] b
  have "\<exists>ev. load_path HAVE_DLFCN_H ?w 3 (root ?t) [] =
      Some (Inr (), [] @ ev) \<and> load_attempts ev = files ?t"
    by blast
  ultimately show ?thesis by (simp add: example_tree_def)
qed

text \<open>
  C6. When the environment block has no variable \<^verbatim>\<open>UHD_MODULE_PATH\<close>, or its value is
  the empty string, the static block returns at once: the trace is as it was, with no
  completion of a path, no query of the filesystem, no load and no line, and no frame
  of \<^verbatim>\<open>load_path\<close> is needed.
\<close>

theorem unset_or_empty_variable_is_noop:
  "map_of (environ w) MODULE_PATH_KEY = None \<or> map_of (environ w) MODULE_PATH_KEY = Some '''' \<Longrightarrow>
   load_modules plat w n tr = Some (Inr (), tr)"
  by (auto simp: load_modules_def env_module_path_def map_of_parse_environment)

theorem unset_or_empty_variable_is_noop_witness:
  "load_modules HAVE_DLFCN_H (example_world\<lparr>environ := [(''HOME'', ''/root'')]\<rparr>) 0 [] =
     Some (Inr (), []) \<and>
   load_modules HAVE_WINDOWS_H
     (example_world\<lparr>environ := [(''HOME'', ''/root''), (''UHD_MODULE_PATH'', '''')]\<rparr>) 3
     [Cerr ''earlier''] = Some (Inr (), [Cerr ''earlier''])"
proof -
  have unset: "map_of (environ (example_world\<lparr>environ := [(''HOME'', ''/root'')]\<rparr>))
      MODULE_PATH_KEY = None \<or>
    map_of (environ (example_world\<lparr>environ := [(''HOME'', ''/root'')]\<rparr>))
      MODULE_PATH_KEY = Some ''''"
    by (simp add: MODULE_PATH_KEY_def)
  have empty: "map_of (environ (example_world
        \<lparr>environ := [(''HOME'', ''/root''), (''UHD_MODULE_PATH'', '''')]\<rparr>))
      MODULE_PATH_KEY = None \<or>
    map_of (environ (example_world
        \<lparr>environ := [(''HOME'', ''/root''), (''UHD_MODULE_PATH'', '''')]\<rparr>))
      MODULE_PATH_KEY = Some ''''"
    by (simp add: MODULE_PATH_KEY_def)
  show ?thesis
    using unset_or_empty_variable_is_noop [OF unset, of HAVE_DLFCN_H 0 "[]"]
      unset_or_empty_variable_is_noop [OF empty, of HAVE_WINDOWS_H 3 "[Cerr ''earlier'']"]
    by simp
qed

text \<open>
  C7. Without a loader every call of \<^verbatim>\<open>load_module\<close> throws "not supported"
  for the file. The separator and the entries are those of the build with
  \<^verbatim>\<open>dlfcn.h\<close>; on finite trees the scan returns normally, its trace without the lines
  of the handler is that of the build with \<^verbatim>\<open>dlfcn.h\<close>, every file is attempted, and
  the handler writes the "not supported" line for each of them.
\<close>

theorem unsupported_platform_still_walks:
  "load_module NO_LOADER w f =
     Inl (runtime_error (''Module loading not supported: Cannot load \"'' @ f @ ''\"'')) \<and>
   env_path_sep NO_LOADER = env_path_sep HAVE_DLFCN_H \<and>
   module_paths NO_LOADER w = module_paths HAVE_DLFCN_H w \<and>
   (env_module_path w \<noteq> '''' \<and> covers w (module_paths NO_LOADER w) ts \<and>
    list_all (\<lambda>t. nesting_depth t \<le> n) ts \<longrightarrow>
      (\<exists>ev ev'.
         load_modules NO_LOADER w n tr = Some (Inr (), tr @ ev) \<and>
         load_modules HAVE_DLFCN_H w n tr = Some (Inr (), tr @ ev') \<and>
         walk_of ev = walk_of ev' \<and>
         load_attempts ev = concat (map files ts) \<and>
         load_errors ev =
           map (\<lambda>f. ''Error: Module loading not supported: Cannot load \"'' @ f @ ''\"'')
             (concat (map files ts))))"
proof (intro conjI impI)
  show "load_module NO_LOADER w f =
     Inl (runtime_error (''Module loading not supported: Cannot load \"'' @ f @ ''\"''))"
    by simp
  show "env_path_sep NO_LOADER = env_path_sep HAVE_DLFCN_H"
    by simp
  show mp: "module_paths NO_LOADER w = module_paths HAVE_DLFCN_H w"
    by (simp add: module_paths_def)
  assume a: "env_module_path w \<noteq> '''' \<and> covers w (module_paths NO_LOADER w) ts \<and>
    list_all (\<lambda>t. nesting_depth t \<le> n) ts"
  let ?ev = "scan_events NO_LOADER w (module_paths NO_LOADER w) ts"
  let ?ev' = "scan_events HAVE_DLFCN_H w (module_paths NO_LOADER w) ts"
  from a have ne: "env_module_path w \<noteq> ''''"
    and cov: "covers w (module_paths NO_LOADER w) ts"
    and deep: "list_all (\<lambda>t. nesting_depth t \<le> n) ts"
    by blast+
  from cov have len: "length ts = length (module_paths NO_LOADER w)"
    by (rule length_covers)
  have "load_modules NO_LOADER w n tr = Some (Inr (), tr @ ?ev)"
    using ne cov deep by (rule load_modules_trees)
  moreover have "load_modules HAVE_DLFCN_H w n tr = Some (Inr (), tr @ ?ev')"
    using load_modules_trees[of w HAVE_DLFCN_H ts n tr] ne cov deep mp by simp
  moreover have "walk_of ?ev = walk_of ?ev'"
    by (rule walk_of_scan_events)
  moreover have "load_attempts ?ev = concat (map files ts)"
    using len by (rule load_attempts_scan)
  moreover have "load_errors ?ev =
      map (\<lambda>f. ''Error: Module loading not supported: Cannot load \"'' @ f @ ''\"'')
        (concat (map files ts))"
    using load_errors_scan[OF len, of NO_LOADER w] by simp
  ultimately show "\<exists>ev ev'.
         load_modules NO_LOADER w n tr = Some (Inr (), tr @ ev) \<and>
         load_modules HAVE_DLFCN_H w n tr = Some (Inr (), tr @ ev') \<and>
         walk_of ev = walk_of ev' \<and>
         load_attempts ev = concat (map files ts) \<and>
         load_errors ev =
           map (\<lambda>f. ''Error: Module loading not supported: Cannot load \"'' @ f @ ''\"'')
             (concat (map files ts))"
    by blast
qed

theorem unsupported_platform_still_walks_witness:
  "\<exists>ev. load_modules NO_LOADER example_world 3 [] = Some (Inr (), ev) \<and>
     load_attempts ev = [''/m/a'', ''/m/b'', ''/m/c/d''] \<and>
     load_errors ev =
       [''Error: Module loading not supported: Cannot load \"/m/a\"'',
        ''Error: Module loading not supported: Cannot load \"/m/b\"'',
        ''Error: Module loading not supported: Cannot load \"/m/c/d\"'']"
proof -
  have mp: "module_paths NO_LOADER example_world = [''/m'', ''none'']"
    by (simp add: module_paths_def example_env_module_path split_def is_any_of_def)
  have a: "env_module_path example_world \<noteq> '''' \<and>
      covers example_world (module_paths NO_LOADER example_world)
        [example_tree, Missing ''/cwd/none''] \<and>
      list_all (\<lambda>t. nesting_depth t \<le> 3) [example_tree, Missing ''/cwd/none'']"
    using example_covers example_depths by (simp add: example_env_module_path mp)
  from unsupported_platform_still_walks [of example_world "''/m/a''"
      "[example_tree, Missing ''/cwd/none'']" 3 "[]"] a
  have "\<exists>ev ev'.
         load_modules NO_LOADER example_world 3 [] = Some (Inr (), [] @ ev) \<and>
         load_modules HAVE_DLFCN_H example_world 3 [] = Some (Inr (), [] @ ev') \<and>
         walk_of ev = walk_of ev' \<and>
         load_attempts ev = concat (map files [example_tree, Missing ''/cwd/none'']) \<and>
         load_errors ev =
           map (\<lambda>f. ''Error: Module loading not supported: Cannot load \"'' @ f @ ''\"'')
             (concat (map files [example_tree, Missing ''/cwd/none'']))"
    by blast
  then show ?thesis by (auto simp: example_tree_def)
qed

text \<open>
  C8. Two scans with the same variable and the same filesystem are to write the same
  lines. In the example the first scan cannot load \<^verbatim>\<open>/m/b\<close> and says so; the second
  scan, with the same variable and filesystem, loads it and writes no line for it.
\<close>

theorem second_scan_differs:
  "same_inputs first_scan_world second_scan_world \<and>
   map_option (\<lambda>(r, ev). diagnostics ev) (load_modules HAVE_DLFCN_H first_scan_world 3 []) =
     Some [''Error: dlopen failed to load \"/m/b\"'', ''Module path \"/cwd/none\" not found.''] \<and>
   map_option (\<lambda>(r, ev). diagnostics ev)
     (scan_twice HAVE_DLFCN_H first_scan_world second_scan_world 3 []) =
     Some [''Error: dlopen failed to load \"/m/b\"'', ''Module path \"/cwd/none\" not found.'',
           ''Module path \"/cwd/none\" not found.'']"
proof -
  let ?ev1 = "scan_events HAVE_DLFCN_H first_scan_world [''/m'', ''none'']
       [example_tree, Missing ''/cwd/none'']"
  let ?ev2 = "scan_events HAVE_DLFCN_H second_scan_world [''/m'', ''none'']
       [example_tree, Missing ''/cwd/none'']"
  have "same_inputs first_scan_world second_scan_world"
    by (simp add: same_inputs_def first_scan_world_def second_scan_world_def)
  moreover have "load_modules HAVE_DLFCN_H second_scan_world 3 ?ev1 = Some (Inr (), ?ev1 @ ?ev2)"
    using load_modules_frame[of HAVE_DLFCN_H second_scan_world 3 ?ev1] scan_world_runs(2)
    by simp
  then have "scan_twice HAVE_DLFCN_H first_scan_world second_scan_world 3 [] =
      Some (Inr (), ?ev1 @ ?ev2)"
    using scan_world_runs(1) by (simp add: scan_twice_def)
  ultimately show ?thesis
    using scan_world_runs(1) scan_world_lines by simp
qed

text \<open>
  C8, as the code has it. The events of a scan do not depend on the trace before it.
  With the same variable and filesystem a scan runs as the other does, the lines of the
  handler apart: it returns, throws or runs out of frames as the other, with the same
  queries, load attempts and "not found" lines in the same order. After a first scan
  that returns normally the second one does, too. Where the loader also answers as
  before, the second scan adds the events of the first, line for line.
\<close>

theorem second_scan_repeats_walk:
  "same_inputs w w' \<Longrightarrow>
   load_modules plat w n tr = extend tr (load_modules plat w n []) \<and>
   walk_outcome (load_modules plat w' n []) = walk_outcome (load_modules plat w n []) \<and>
   (same_loader w w' \<longrightarrow> load_modules plat w' n tr = load_modules plat w n tr) \<and>
   (load_modules plat w n tr = Some (Inr (), tr1) \<longrightarrow>
      (\<exists>ev ev'. tr1 = tr @ ev \<and>
         scan_twice plat w w' n tr = Some (Inr (), tr @ ev @ ev') \<and>
         walk_of ev' = walk_of ev \<and>
         load_attempts ev' = load_attempts ev \<and>
         (same_loader w w' \<longrightarrow> ev' = ev)))"
proof (intro conjI impI)
  assume same: "same_inputs w w'"
  show frame: "load_modules plat w n tr = extend tr (load_modules plat w n [])"
    by (rule load_modules_frame)
  show sim: "walk_outcome (load_modules plat w' n []) = walk_outcome (load_modules plat w n [])"
    using same by (rule load_modules_sim)
  show "load_modules plat w' n tr = load_modules plat w n tr" if "same_loader w w'"
    using same that by (rule load_modules_same)
  assume first: "load_modules plat w n tr = Some (Inr (), tr1)"
  with frame obtain ev where ev: "load_modules plat w n [] = Some (Inr (), ev)"
    and tr1: "tr1 = tr @ ev"
    by (cases "load_modules plat w n []") auto
  from sim ev obtain ev' where ev': "load_modules plat w' n [] = Some (Inr (), ev')"
    and walk: "walk_of ev' = walk_of ev"
    by (cases "load_modules plat w' n []") auto
  have "load_modules plat w' n (tr @ ev) = extend (tr @ ev) (load_modules plat w' n [])"
    by (rule load_modules_frame)
  then have second: "load_modules plat w' n (tr @ ev) = Some (Inr (), tr @ ev @ ev')"
    using ev' by simp
  have twice: "scan_twice plat w w' n tr = Some (Inr (), tr @ ev @ ev')"
    using first tr1 second by (simp add: scan_twice_def)
  have attempts: "load_attempts ev' = load_attempts ev"
    using walk load_attempts_walk_of[of ev] load_attempts_walk_of[of ev'] by simp
  have "ev' = ev" if "same_loader w w'"
    using load_modules_same[OF same that, of plat n "[]"] ev ev' by simp
  with tr1 twice walk attempts
  show "\<exists>ev ev'. tr1 = tr @ ev \<and>
         scan_twice plat w w' n tr = Some (Inr (), tr @ ev @ ev') \<and>
         walk_of ev' = walk_of ev \<and>
         load_attempts ev' = load_attempts ev \<and>
         (same_loader w w' \<longrightarrow> ev' = ev)"
    by blast
qed

theorem second_scan_repeats_walk_witness:
  "\<exists>ev ev'.
     scan_twice HAVE_DLFCN_H first_scan_world second_scan_world 3 [] = Some (Inr (), ev @ ev') \<and>
     load_modules HAVE_DLFCN_H first_scan_world 3 [] = Some (Inr (), ev) \<and>
     walk_of ev' = walk_of ev \<and>
     load_attempts ev = [''/m/a'', ''/m/b'', ''/m/c/d''] \<and>
     load_attempts ev' = [''/m/a'', ''/m/b'', ''/m/c/d'']"
proof -
  let ?ev1 = "scan_events HAVE_DLFCN_H first_scan_world [''/m'', ''none'']
       [example_tree, Missing ''/cwd/none'']"
  have same: "same_inputs first_scan_world second_scan_world"
    by (simp add: same_inputs_def first_scan_world_def second_scan_world_def)
  have a: "load_attempts ?ev1 = [''/m/a'', ''/m/b'', ''/m/c/d'']"
    by (simp add: load_attempts_scan example_tree_def)
  from second_scan_repeats_walk [OF same, of HAVE_DLFCN_H 3 "[]" ?ev1] scan_world_runs(1)
  obtain ev ev' where "?ev1 = [] @ ev"
    and "scan_twice HAVE_DLFCN_H first_scan_world second_scan_world 3 [] =
      Some (Inr (), [] @ ev @ ev')"
    and "walk_of ev' = walk_of ev" and "load_attempts ev' = load_attempts ev"
    by blast
  then show ?thesis using scan_world_runs(1) a by auto
qed

text \<open>
  C9. On a finite tree the walk returns exactly when it has a frame for each nesting
  level of the tree: there is no other limit on the depth. Where the first entry of
  every directory of a set leads to a directory of the set again, as a link to an
  ancestor does, the walk returns with no number of frames.
\<close>

theorem walk_uses_one_frame_per_level:
  "(represents w t \<longrightarrow> (load_path plat w n (root t) tr \<noteq> None) = (nesting_depth t \<le> n)) \<and>
   ((\<forall>q. q \<in> C \<longrightarrow> fs_exists w q = Inr True \<and> is_directory w q = Inr True \<and>
        (\<exists>e es. directory_iterator w q = Inr (e # es) \<and> e \<in> C)) \<and> p \<in> C \<longrightarrow>
      load_path plat w n p tr = None)"
proof (intro conjI impI)
  assume rep: "represents w t"
  show "(load_path plat w n (root t) tr \<noteq> None) = (nesting_depth t \<le> n)"
  proof (cases "nesting_depth t \<le> n")
    case True
    then show ?thesis using load_path_tree[OF rep, of n plat tr] by simp
  next
    case False
    then show ?thesis using load_path_tree_short[OF rep, of n plat tr] by simp
  qed
next
  assume "(\<forall>q. q \<in> C \<longrightarrow> fs_exists w q = Inr True \<and> is_directory w q = Inr True \<and>
        (\<exists>e es. directory_iterator w q = Inr (e # es) \<and> e \<in> C)) \<and> p \<in> C"
  then show "load_path plat w n p tr = None"
    using load_path_cycle[of C w p plat n tr] by blast
qed

theorem walk_uses_one_frame_per_level_witness:
  "nesting_depth example_tree = 3 \<and>
   load_path HAVE_DLFCN_H example_world 3 ''/m'' [] \<noteq> None \<and>
   load_path HAVE_DLFCN_H example_world 2 ''/m'' [] = None \<and>
   (\<forall>n. load_path HAVE_DLFCN_H loop_world n ''/m'' [] = None)"
proof -
  have d: "nesting_depth example_tree = 3"
    by (simp add: example_tree_def)
  have r: "root example_tree = ''/m''"
    by (simp add: example_tree_def)
  have loop: "(\<forall>q. q \<in> UNIV \<longrightarrow> fs_exists loop_world q = Inr True \<and>
        is_directory loop_world q = Inr True \<and>
        (\<exists>e es. directory_iterator loop_world q = Inr (e # es) \<and> e \<in> UNIV)) \<and>
      ''/m'' \<in> UNIV"
    by (simp add: loop_world_def)
  have "load_path HAVE_DLFCN_H example_world 3 ''/m'' [] \<noteq> None"
    using walk_uses_one_frame_per_level [of example_world example_tree HAVE_DLFCN_H 3 "[]" "{}" "[]"]
      example_represents d r by simp
  moreover have "load_path HAVE_DLFCN_H example_world 2 ''/m'' [] = None"
    using walk_uses_one_frame_per_level [of example_world example_tree HAVE_DLFCN_H 2 "[]" "{}" "[]"]
      example_represents d r
    by (cases "load_path HAVE_DLFCN_H example_world 2 ''/m'' []") auto
  moreover have "\<forall>n. load_path HAVE_DLFCN_H loop_world n ''/m'' [] = None"
  proof
    fix n
    show "load_path HAVE_DLFCN_H loop_world n ''/m'' [] = None"
      using walk_uses_one_frame_per_level [of loop_world "File []" HAVE_DLFCN_H n "[]" UNIV "''/m''"]
        loop by blast
  qed
  ultimately show ?thesis using d by simp
qed

text \<open>
  C10. An empty entry is to be completed against the current directory and walked. In
  the example world the completion of the empty path against the current directory
  would be \<^verbatim>\<open>/cwd/\<close>, but \<^verbatim>\<open>fs::system_complete\<close> returns the empty path as it is:
  for the value \<^verbatim>\<open>:\<close> the loader asks twice whether the empty path exists and writes
  twice that it was not found, and walks nothing.
\<close>

theorem empty_entry_is_not_completed:
  "complete_path example_world '''' = Inr ''/cwd/'' \<and>
   system_complete example_world '''' = Inr '''' \<and>
   load_modules HAVE_DLFCN_H (example_world\<lparr>environ := [(''UHD_MODULE_PATH'', '':'')]\<rparr>) 1 [] =
     Some (Inr (),
       [Resolve '''', Query_exists '''', Cerr ''Module path \"\" not found.'',
        Resolve '''', Query_exists '''', Cerr ''Module path \"\" not found.''])"
proof -
  have "complete_path example_world '''' = Inr ''/cwd/''"
    by (simp add: example_world_def)
  moreover have "system_complete example_world '''' = Inr ''''"
    by (simp add: system_complete_def)
  moreover have "load_modules HAVE_DLFCN_H
      (example_world\<lparr>environ := [(''UHD_MODULE_PATH'', '':'')]\<rparr>) 1 [] =
     Some (Inr (),
       [Resolve '''', Query_exists '''', Cerr ''Module path \"\" not found.'',
        Resolve '''', Query_exists '''', Cerr ''Module path \"\" not found.''])"
  proof -
    let ?w = "example_world\<lparr>environ := [(''UHD_MODULE_PATH'', '':'')]\<rparr>"
    have ne: "env_module_path ?w \<noteq> ''''"
      by (simp add: colon_env)
    have mp: "module_paths HAVE_DLFCN_H ?w = ['''', '''']"
      by (simp add: module_paths_def colon_env split_def is_any_of_def)
    have entry: "load_entry HAVE_DLFCN_H ?w (Suc 0) '''' tr =
        Some (Inr (), tr @ [Resolve '''', Query_exists '''',
          Cerr ''Module path \"\" not found.''])" for tr
      by (simp add: load_entry_def system_complete_def file_string_def example_world_def)
    show ?thesis
      using load_modules_entries[OF ne, of HAVE_DLFCN_H 1 "[]"] by (simp add: mp entry)
  qed
  ultimately show ?thesis by simp
qed

text \<open>
  C10, as the code has it. The split keeps empty entries: every separator starts a new
  entry, so that \<^verbatim>\<open>a::b\<close> has three entries and \<^verbatim>\<open>a:\<close> has two, and entries joined
  by the separator come back as they were, the empty ones too. An empty entry stays
  empty under \<^verbatim>\<open>fs::system_complete\<close>. A value of separators only is split into empty
  entries, one more than its length; \<^verbatim>\<open>load_path\<close> runs on the empty path for each of
  them and starts with the query whether it exists; where it does not, each entry gets
  that query and the line "not found" with an empty name, and nothing else.
\<close>

theorem empty_entries_are_candidates:
  "split (is_any_of '':'') ''a::b'' = [''a'', '''', ''b''] \<and>
   split (is_any_of '':'') ''a:'' = [''a'', ''''] \<and>
   length (module_paths plat w) =
     Suc (length (filter (is_any_of (env_path_sep plat)) (env_module_path w))) \<and>
   (env_path_sep plat = [sep] \<and> es \<noteq> [] \<and> (\<forall>e\<in>set es. sep \<notin> set e) \<and>
    env_module_path w = join sep es \<longrightarrow> module_paths plat w = es) \<and>
   system_complete w '''' = Inr '''' \<and>
   (v \<noteq> '''' \<and> (\<forall>c\<in>set v. is_any_of (env_path_sep plat) c) \<and> env_module_path w = v \<longrightarrow>
      module_paths plat w = replicate (Suc (length v)) '''' \<and>
      load_modules plat w n tr =
        for_each (\<lambda>mp tr'. load_path plat w n '''' (tr' @ [Resolve mp]))
          (replicate (Suc (length v)) '''') tr \<and>
      (represents w t \<and> root t = '''' \<and> nesting_depth t \<le> n \<longrightarrow>
         load_modules plat w n tr =
           Some (Inr (), tr @
             concat (replicate (Suc (length v)) (Resolve '''' # walk_events plat w t))) \<and>
         (\<exists>rest. walk_events plat w t = Query_exists '''' # rest)) \<and>
      (fs_exists w '''' = Inr False \<and> 0 < n \<longrightarrow>
         load_modules plat w n tr =
           Some (Inr (), tr @
             concat (replicate (Suc (length v))
               [Resolve '''', Query_exists '''', Cerr ''Module path \"\" not found.'']))))"
proof (intro conjI impI)
  show "split (is_any_of '':'') ''a::b'' = [''a'', '''', ''b'']"
    by (simp add: split_def is_any_of_def)
  show "split (is_any_of '':'') ''a:'' = [''a'', '''']"
    by (simp add: split_def is_any_of_def)
  show "length (module_paths plat w) =
     Suc (length (filter (is_any_of (env_path_sep plat)) (env_module_path w)))"
    by (simp add: module_paths_def split_def length_split_from)
  show empty: "system_complete w '''' = Inr ''''"
    by (simp add: system_complete_def)
next
  assume "env_path_sep plat = [sep] \<and> es \<noteq> [] \<and> (\<forall>e\<in>set es. sep \<notin> set e) \<and>
    env_module_path w = join sep es"
  then show "module_paths plat w = es"
    by (simp add: module_paths_def split_join)
next
  assume a: "v \<noteq> '''' \<and> (\<forall>c\<in>set v. is_any_of (env_path_sep plat) c) \<and> env_module_path w = v"
  then have ne: "env_module_path w \<noteq> ''''" by blast
  from a show mp: "module_paths plat w = replicate (Suc (length v)) ''''"
    by (simp add: module_paths_def split_all_separators)
  have body: "load_entry plat w n mp tr' = load_path plat w n '''' (tr' @ [Resolve mp])"
    if "mp = ''''" for mp tr'
    using that by (simp add: load_entry_def system_complete_def)
  have eq: "for_each (load_entry plat w n) (replicate (Suc (length v)) '''') tr =
      for_each (\<lambda>mp tr'. load_path plat w n '''' (tr' @ [Resolve mp]))
        (replicate (Suc (length v)) '''') tr"
    by (rule for_each_cong) (auto simp: body)
  show "load_modules plat w n tr =
        for_each (\<lambda>mp tr'. load_path plat w n '''' (tr' @ [Resolve mp]))
          (replicate (Suc (length v)) '''') tr"
    unfolding load_modules_entries[OF ne] mp by (rule eq)
  have trees: "load_modules plat w n tr =
      Some (Inr (), tr @ concat (replicate (Suc (length v)) (Resolve '''' # walk_events plat w t')))"
    if b: "represents w t' \<and> root t' = '''' \<and> nesting_depth t' \<le> n" for t'
  proof -
    let ?ts = "replicate (Suc (length v)) t'"
    have cov: "covers w (module_paths plat w) ?ts"
      using b mp by (simp add: covers_def list_all_iff system_complete_def)
    have deep: "list_all (\<lambda>t. nesting_depth t \<le> n) ?ts"
      using b by (simp add: list_all_iff)
    have "scan_events plat w (module_paths plat w) ?ts =
        concat (replicate (Suc (length v)) (Resolve '''' # walk_events plat w t'))"
      unfolding scan_events_def mp zip_replicate map_replicate by simp
    then show ?thesis
      using load_modules_trees[OF ne cov deep, of tr] by simp
  qed
  {
    assume b: "represents w t \<and> root t = '''' \<and> nesting_depth t \<le> n"
    then show "load_modules plat w n tr =
           Some (Inr (), tr @
             concat (replicate (Suc (length v)) (Resolve '''' # walk_events plat w t)))"
      by (rule trees)
    show "\<exists>rest. walk_events plat w t = Query_exists '''' # rest"
      using walk_events_starts[of plat w t] b by simp
  }
  {
    assume c: "fs_exists w '''' = Inr False \<and> 0 < n"
    then have "represents w (Missing '''') \<and> root (Missing '''') = '''' \<and>
        nesting_depth (Missing '''') \<le> n"
      by auto
    then show "load_modules plat w n tr =
           Some (Inr (), tr @
             concat (replicate (Suc (length v))
               [Resolve '''', Query_exists '''', Cerr ''Module path \"\" not found.'']))"
      using trees[of "Missing ''''"] by simp
  }
qed

theorem empty_entries_are_candidates_witness:
  "module_paths HAVE_DLFCN_H (example_world\<lparr>environ := [(''UHD_MODULE_PATH'', '':'')]\<rparr>) =
     ['''', ''''] \<and>
   load_modules HAVE_DLFCN_H (example_world\<lparr>environ := [(''UHD_MODULE_PATH'', '':'')]\<rparr>) 1 [] =
     Some (Inr (),
       [Resolve '''', Query_exists '''', Cerr ''Module path \"\" not found.'',
        Resolve '''', Query_exists '''', Cerr ''Module path \"\" not found.''])"
proof -
  let ?w = "example_world\<lparr>environ := [(''UHD_MODULE_PATH'', '':'')]\<rparr>"
  have a: "'':'' \<noteq> '''' \<and> (\<forall>c\<in>set '':''. is_any_of (env_path_sep HAVE_DLFCN_H) c) \<and>
      env_module_path ?w = '':''"
    by (simp add: colon_env is_any_of_def)
  have c: "fs_exists ?w '''' = Inr False \<and> 0 < (1::nat)"
    by (simp add: example_world_def)
  from empty_entries_are_candidates [where plat = HAVE_DLFCN_H and w = ?w and sep = "CHR '':''"
      and es = "['''', '''']" and v = "'':''" and n = 1 and tr = "[]" and t = "Missing ''''"] a c
  have "module_paths HAVE_DLFCN_H ?w = replicate (Suc (length '':'')) ''''"
    and "load_modules HAVE_DLFCN_H ?w 1 [] =
      Some (Inr (), [] @ concat (replicate (Suc (length '':''))
        [Resolve '''', Query_exists '''', Cerr ''Module path \"\" not found.'']))"
    by blast+
  then show ?thesis by (simp add: numeral_2_eq_2)
qed

end
